theory Spec2Isabelle
  imports Main "HOL-Library.AList" "HOL-Library.Sublist"
begin

section \<open>Data model of the dev-environment reconnection watcher\<close>

text \<open>
  The watcher keeps, under one key of the editor's global key-value store, an object
  \<^verbatim>\<open>Record<string, DevEnvMemento>\<close>. A JavaScript object with string keys is modelled as
  an association list: the order of the list is the property order (the order in which
  \<^verbatim>\<open>for ... in\<close> and \<^verbatim>\<open>Object.entries\<close> enumerate), \<open>map_of\<close> is the property read,
  \<open>AList.update\<close> the property write (an existing key keeps its place, a new key goes
  last) and \<open>AList.delete\<close> the \<^verbatim>\<open>delete\<close> operator. Timestamps are the integers that
  \<^verbatim>\<open>Date.now()\<close> returns (milliseconds), far below the range where a double stops being
  exact, hence \<open>int\<close>.
\<close>

type_synonym 'v js_record = "(string \<times> 'v) list"

record DevEnvMemento =
  previousVscodeWorkspace :: string
  spaceName :: string
  projectName :: string
  attemptingReconnect :: bool
  previousConnectionTimestamp :: int
  alias' :: "string option"

text \<open>Of the remote metadata only the optional \<^verbatim>\<open>status\<close> field is read.\<close>

record DevEnvironment =
  status :: "string option"

text \<open>A status query either rejects (the \<^verbatim>\<open>catch\<close> branch of the poller) or returns metadata.\<close>

datatype error = Error string

definition RECONNECT_TIMER :: nat where
  "RECONNECT_TIMER = 5000"

definition MAX_RECONNECT_TIME :: int where
  "MAX_RECONNECT_TIME = 10 * 60 * 1000"

subsection \<open>Observable effects\<close>

text \<open>
  Every call on a collaborator is recorded, in program order, in a trace. The
  reconnect-and-open sequence is started without being awaited, so the poller records
  the call (\<open>OpenReconnectedDevEnv\<close>, with the arguments it passes); what the started
  sequence does is the separate function \<open>openReconnectedDevEnv\<close> below.
\<close>

datatype event =
    MementoUpdate "DevEnvMemento js_record"
  | GetDevEnvironment string string string
  | ProgressReport string
  | OpenReconnectedDevEnv string DevEnvMemento bool
  | ShowViewLogsMessage string
  | Sleep nat
  | LoggerInfo string
  | ShowInformationMessage string
  | TelemetryRecord string
  | ConnectCommand string string string string
  | CloseWindow

text \<open>
  The state threaded through the watcher: \<open>memento\<close> is the value persisted under
  \<^verbatim>\<open>CODECATALYST_RECONNECT_KEY\<close> (the store hands out and takes in values, as the
  interface \<^verbatim>\<open>get(key, default)\<close> / \<^verbatim>\<open>update(key, value)\<close> of the specification
  describes it), \<open>devenvs\<close> is the poller's local object (the working set), \<open>trace\<close>
  the effects so far.
\<close>

record state =
  memento :: "DevEnvMemento js_record"
  devenvs :: "DevEnvMemento js_record"
  trace :: "event list"

text \<open>
  What the watcher cannot decide itself, per tick of the poll loop (ticks are numbered
  from 0): whether the user has cancelled the progress notification, what the status
  query answers for an environment, and what the clock reads.
\<close>

record world =
  isCancellationRequested :: "nat \<Rightarrow> bool"
  getDevEnvironment :: "nat \<Rightarrow> string \<Rightarrow> string \<Rightarrow> string \<Rightarrow> error + DevEnvironment"
  dateNow :: "nat \<Rightarrow> int"

text \<open>
  A run of the poll loop for a bounded number of ticks either has returned, or is still
  inside the loop when the bound is reached; both carry the state reached, so that the
  effects of a loop that never ends can be stated for each of its prefixes.
\<close>

datatype 'a outcome = Returned 'a | Polling 'a

fun state_of :: "'a outcome \<Rightarrow> 'a" where
  "state_of (Returned s) = s"
| "state_of (Polling s) = s"

fun returned :: "'a outcome \<Rightarrow> bool" where
  "returned (Returned s) = True"
| "returned (Polling s) = False"

section \<open>The functions of the watcher\<close>

definition emit :: "event \<Rightarrow> state \<Rightarrow> state" where
  "emit e st = st\<lparr>trace := trace st @ [e]\<rparr>"

text \<open>
  \<^verbatim>\<open>localize(key, message, arg)\<close> without a translation bundle: the message with every
  \<^verbatim>\<open>{0}\<close> replaced by the argument.
\<close>

fun localize :: "string \<Rightarrow> string \<Rightarrow> string" where
  "localize [] a = []"
| "localize (c # cs) a =
     (if take 3 (c # cs) = ''{0}'' then a @ localize (drop 2 cs) a else c # localize cs a)"

fun join :: "string \<Rightarrow> string list \<Rightarrow> string" where
  "join sep [] = []"
| "join sep [x] = x"
| "join sep (x # y # ys) = x @ sep @ join sep (y # ys)"

definition getDevEnvName :: "string option \<Rightarrow> string \<Rightarrow> string" where
  "getDevEnvName al ident = (case al of None \<Rightarrow> ident | Some a \<Rightarrow> if a \<noteq> [] then a else ident)"

definition isTerminating :: "DevEnvironment \<Rightarrow> bool" where
  "isTerminating devenv =
     (case status devenv of
        None \<Rightarrow> False
      | Some s \<Rightarrow> if s = [] then False
                  else s = ''FAILED'' \<or> s = ''DELETING'' \<or> s = ''DELETED'')"

definition isExpired :: "int \<Rightarrow> int \<Rightarrow> bool" where
  "isExpired now previousConnectionTime = (now - previousConnectionTime > MAX_RECONNECT_TIME)"

text \<open>
  \<^verbatim>\<open>filterInvalidDevEnvs\<close>: a \<^verbatim>\<open>for ... in\<close> over the keys of the object that deletes,
  in place, each entry that is expired or already attempting to reconnect. The keys are
  those the object has when the loop starts; a key deleted before its turn is skipped.
\<close>

fun filterInvalidDevEnvs_for :: "int \<Rightarrow> string list \<Rightarrow> DevEnvMemento js_record \<Rightarrow> DevEnvMemento js_record" where
  "filterInvalidDevEnvs_for now [] devs = devs"
| "filterInvalidDevEnvs_for now (reconnectDevEnvId # ks) devs =
     filterInvalidDevEnvs_for now ks
       (case map_of devs reconnectDevEnvId of
          None \<Rightarrow> devs
        | Some devenvDetail \<Rightarrow>
            if isExpired now (previousConnectionTimestamp devenvDetail) \<or> attemptingReconnect devenvDetail
            then AList.delete reconnectDevEnvId devs
            else devs)"

definition filterInvalidDevEnvs :: "int \<Rightarrow> DevEnvMemento js_record \<Rightarrow> DevEnvMemento js_record" where
  "filterInvalidDevEnvs now devs = filterInvalidDevEnvs_for now (map fst devs) devs"

text \<open>
  \<^verbatim>\<open>setWatchedDevEnvStatus\<close>: every entry of the working set is replaced by a copy with
  the flag set, and the working set is written to the store as the new value of the key.
\<close>

definition setWatchedDevEnvStatus :: "bool \<Rightarrow> state \<Rightarrow> state" where
  "setWatchedDevEnvStatus watchStatus st =
     (let devs = fold (\<lambda>(ident, detail). AList.update ident (detail\<lparr>attemptingReconnect := watchStatus\<rparr>))
                   (devenvs st) (devenvs st)
      in emit (MementoUpdate devs) (st\<lparr>devenvs := devs, memento := devs\<rparr>))"

text \<open>\<^verbatim>\<open>failDevEnv\<close>: read the store, delete the entry, write the store.\<close>

definition failDevEnv :: "string \<Rightarrow> state \<Rightarrow> state" where
  "failDevEnv devenvId st =
     (let curr = AList.delete devenvId (memento st)
      in emit (MementoUpdate curr) (st\<lparr>memento := curr\<rparr>))"

text \<open>
  \<^verbatim>\<open>openReconnectedDevEnv\<close>, the sequence started for a running environment. The connect
  command is external; \<open>connected\<close> says whether its promise resolves. The window is
  closed only after that, and only when \<open>closeRootInstance\<close> holds.
\<close>

definition openReconnectedDevEnv :: "string \<Rightarrow> DevEnvMemento \<Rightarrow> bool \<Rightarrow> bool \<Rightarrow> event list" where
  "openReconnectedDevEnv ident devenv closeRootInstance connected =
     [TelemetryRecord ''Reconnect'',
      ConnectCommand ident (spaceName devenv) (projectName devenv) (previousVscodeWorkspace devenv)]
     @ (if connected then (if closeRootInstance then [Sleep 5000, CloseWindow] else []) else [])"

text \<open>The body of the poller's \<^verbatim>\<open>for\<close> loop for one entry of the working set.\<close>

definition pollDevEnv :: "world \<Rightarrow> bool \<Rightarrow> nat \<Rightarrow> string \<Rightarrow> DevEnvMemento \<Rightarrow> state \<Rightarrow> state" where
  "pollDevEnv w shouldCloseRootInstance n ident details st =
     (let devenvName = getDevEnvName (alias' details) ident;
          st1 = emit (GetDevEnvironment ident (spaceName details) (projectName details)) st
      in case getDevEnvironment w n ident (spaceName details) (projectName details) of
           Inl err \<Rightarrow>
             (let st2 = failDevEnv ident st1;
                  st3 = st2\<lparr>devenvs := AList.delete ident (devenvs st2)\<rparr>
              in emit (ShowViewLogsMessage (localize ''Unable to reconnect to ${0}'' devenvName)) st3)
         | Inr metadata \<Rightarrow>
             if status metadata = Some ''RUNNING'' then
               (let st2 = emit (ProgressReport (''Dev environment '' @ devenvName @
                                  '' is now running. Attempting to re-open'')) st1;
                    st3 = emit (OpenReconnectedDevEnv ident details shouldCloseRootInstance) st2
                in st3\<lparr>devenvs := AList.delete ident (devenvs st3)\<rparr>)
             else if isTerminating metadata then
               (let st2 = emit (ProgressReport (''Dev environment '' @ devenvName @ '' is terminating'')) st1
                in st2\<lparr>devenvs := AList.delete ident (devenvs st2)\<rparr>)
             else if isExpired (dateNow w n) (previousConnectionTimestamp details) then
               emit (ProgressReport (''Dev environment '' @ devenvName @ '' has expired'')) st1
             else st1)"

text \<open>One tick: the \<^verbatim>\<open>for ... in\<close> over the keys the working set has when the tick starts.\<close>

fun pollDevEnvs_for :: "world \<Rightarrow> bool \<Rightarrow> nat \<Rightarrow> string list \<Rightarrow> state \<Rightarrow> state" where
  "pollDevEnvs_for w c n [] st = st"
| "pollDevEnvs_for w c n (ident # ks) st =
     pollDevEnvs_for w c n ks
       (case map_of (devenvs st) ident of
          None \<Rightarrow> st
        | Some details \<Rightarrow> pollDevEnv w c n ident details st)"

definition pollTick :: "world \<Rightarrow> bool \<Rightarrow> nat \<Rightarrow> state \<Rightarrow> state" where
  "pollTick w c n st = emit (Sleep RECONNECT_TIMER) (pollDevEnvs_for w c n (map fst (devenvs st)) st)"

text \<open>
  The \<^verbatim>\<open>while\<close> loop, from tick \<open>n\<close>, for at most \<open>fuel\<close> ticks. Cancellation is looked at
  once per tick, before the entries are polled.
\<close>

fun pollDevEnvs_while :: "nat \<Rightarrow> world \<Rightarrow> bool \<Rightarrow> nat \<Rightarrow> state \<Rightarrow> state outcome" where
  "pollDevEnvs_while fuel w c n st =
     (if length (devenvs st) > 0 then
        if isCancellationRequested w n then Returned (setWatchedDevEnvStatus False st)
        else (case fuel of
                0 \<Rightarrow> Polling st
              | Suc f \<Rightarrow> pollDevEnvs_while f w c (Suc n) (pollTick w c n st))
      else Returned st)"

definition pollDevEnvs :: "nat \<Rightarrow> world \<Rightarrow> state \<Rightarrow> state outcome" where
  "pollDevEnvs fuel w st =
     (let st1 = setWatchedDevEnvStatus True st;
          shouldCloseRootInstance = (length (devenvs st1) = 1)
      in pollDevEnvs_while fuel w shouldCloseRootInstance 0 st1)"

text \<open>
  \<^verbatim>\<open>reconnectDevEnvs\<close>: \<open>now\<close> is the clock during the filter pass. The progress
  notification reports its title, then runs the poller on the filtered set.
\<close>

definition progressTitle :: "DevEnvMemento js_record \<Rightarrow> string" where
  "progressTitle validDevEnvs =
     localize ''The following devenvs are restarting: {0}''
       (join '', '' (map (\<lambda>(ident, devenv). getDevEnvName (alias' devenv) ident) validDevEnvs))"

definition reconnectDevEnvs :: "nat \<Rightarrow> world \<Rightarrow> int \<Rightarrow> state \<Rightarrow> state outcome" where
  "reconnectDevEnvs fuel w now st =
     (let pendingDevEnvs = memento st;
          validDevEnvs = filterInvalidDevEnvs now pendingDevEnvs
      in if length validDevEnvs = 0 then Returned st
         else pollDevEnvs fuel w (emit (ProgressReport (progressTitle validDevEnvs))
                                    (st\<lparr>devenvs := validDevEnvs\<rparr>)))"

text \<open>
  The operator \<^verbatim>\<open>in\<close> holds of a key of the object itself and of every property name
  that a plain object inherits from \<^verbatim>\<open>Object.prototype\<close>; the stored value, parsed from
  JSON or the default \<^verbatim>\<open>{}\<close>, is a plain object.
\<close>

definition objectPrototypeProperties :: "string list" where
  "objectPrototypeProperties =
     [''constructor'', ''__defineGetter__'', ''__defineSetter__'', ''hasOwnProperty'',
      ''__lookupGetter__'', ''__lookupSetter__'', ''isPrototypeOf'', ''propertyIsEnumerable'',
      ''toString'', ''valueOf'', ''__proto__'', ''toLocaleString'']"

definition hasProperty :: "string \<Rightarrow> 'v js_record \<Rightarrow> bool" where
  "hasProperty k obj = (case map_of obj k of Some v \<Rightarrow> True | None \<Rightarrow> k \<in> set objectPrototypeProperties)"

text \<open>
  \<^verbatim>\<open>handleRestart\<close>: \<open>envId\<close> is the id of the remote environment the process runs in,
  if it runs in one. Where \<^verbatim>\<open>envId in pendingReconnects\<close> holds of an inherited name only,
  \<^verbatim>\<open>pendingReconnects[envId]\<close> is the inherited value, which has no \<^verbatim>\<open>alias\<close>, and
  \<^verbatim>\<open>delete\<close> leaves the object as it is.
\<close>

definition handleRestart :: "nat \<Rightarrow> world \<Rightarrow> int \<Rightarrow> string option \<Rightarrow> state \<Rightarrow> state outcome" where
  "handleRestart fuel w now envId st =
     (case envId of
        Some ident \<Rightarrow>
          (let pendingReconnects = memento st
           in if hasProperty ident pendingReconnects then
                (let devenvAlias = (case map_of pendingReconnects ident of
                                      Some devenv \<Rightarrow> alias' devenv
                                    | None \<Rightarrow> None);
                     devenvName = getDevEnvName devenvAlias ident;
                     st1 = emit (LoggerInfo (''codecatalyst: ssh session reconnected to devenv: '' @ devenvName)) st;
                     st2 = emit (ShowInformationMessage
                                   (localize ''Reconnected to dev environment: {0}'' devenvName)) st1;
                     pendingReconnects' = AList.delete ident pendingReconnects
                 in Returned (emit (MementoUpdate pendingReconnects') (st2\<lparr>memento := pendingReconnects'\<rparr>)))
              else Returned st)
      | None \<Rightarrow>
          reconnectDevEnvs fuel w now
            (emit (LoggerInfo ''codecatalyst: attempting to poll development envionments'') st))"

section \<open>Observations on states and traces\<close>

text \<open>
  The calls of the reconnect-and-open sequence for one environment in a trace, and the
  events a piece of the program has added to the trace.
\<close>

definition opensOf :: "string \<Rightarrow> event list \<Rightarrow> event list" where
  "opensOf ident tr = filter (\<lambda>e. case e of OpenReconnectedDevEnv i d c \<Rightarrow> i = ident | _ \<Rightarrow> False) tr"

definition newEvents :: "state \<Rightarrow> state \<Rightarrow> event list" where
  "newEvents st st' = drop (length (trace st)) (trace st')"

text \<open>
  The answer of the status query for an entry at a tick, by the branch of the poller it
  selects: the query rejects, it reports \<^verbatim>\<open>RUNNING\<close>, or it reports a terminating status.
  In each of the three the body of the loop deletes the entry from the working set.
\<close>

definition queryRejects :: "world \<Rightarrow> nat \<Rightarrow> string \<Rightarrow> DevEnvMemento \<Rightarrow> bool" where
  "queryRejects w n ident details =
     (case getDevEnvironment w n ident (spaceName details) (projectName details) of
        Inl err \<Rightarrow> True | Inr metadata \<Rightarrow> False)"

definition queryRunning :: "world \<Rightarrow> nat \<Rightarrow> string \<Rightarrow> DevEnvMemento \<Rightarrow> bool" where
  "queryRunning w n ident details =
     (case getDevEnvironment w n ident (spaceName details) (projectName details) of
        Inl err \<Rightarrow> False | Inr metadata \<Rightarrow> status metadata = Some ''RUNNING'')"

definition queryTerminating :: "world \<Rightarrow> nat \<Rightarrow> string \<Rightarrow> DevEnvMemento \<Rightarrow> bool" where
  "queryTerminating w n ident details =
     (case getDevEnvironment w n ident (spaceName details) (projectName details) of
        Inl err \<Rightarrow> False | Inr metadata \<Rightarrow> status metadata \<noteq> Some ''RUNNING'' \<and> isTerminating metadata)"

definition unwatched :: "world \<Rightarrow> nat \<Rightarrow> string \<Rightarrow> DevEnvMemento \<Rightarrow> bool" where
  "unwatched w n ident details =
     (queryRejects w n ident details \<or> queryRunning w n ident details \<or> queryTerminating w n ident details)"


text \<open>
  What the poller may emit when its flag \<open>shouldCloseRootInstance\<close> is \<open>c\<close>: calls of the open
  sequence carry \<open>c\<close>, and the window is never closed by the poller itself.
\<close>

definition closeFlagIs :: "bool \<Rightarrow> event \<Rightarrow> bool" where
  "closeFlagIs c e = (case e of OpenReconnectedDevEnv i d c' \<Rightarrow> c' = c | CloseWindow \<Rightarrow> False | _ \<Rightarrow> True)"

section \<open>Example inputs\<close>

text \<open>
  A world in which \<^verbatim>\<open>env-running\<close> is running, \<^verbatim>\<open>env-failed\<close> has failed, the query for
  \<^verbatim>\<open>env-gone\<close> rejects and every other environment is still starting; the same world
  with the notification cancelled; and the same world eleven minutes later.
\<close>

definition exDevEnv :: "int \<Rightarrow> bool \<Rightarrow> string option \<Rightarrow> DevEnvMemento" where
  "exDevEnv ts flag al =
     \<lparr>previousVscodeWorkspace = ''/projects/app'', spaceName = ''space'', projectName = ''proj'',
      attemptingReconnect = flag, previousConnectionTimestamp = ts, alias' = al\<rparr>"

definition exAnswers :: "nat \<Rightarrow> string \<Rightarrow> string \<Rightarrow> string \<Rightarrow> error + DevEnvironment" where
  "exAnswers n ident space project =
     (if ident = ''env-running'' then Inr \<lparr>status = Some ''RUNNING''\<rparr>
      else if ident = ''env-failed'' then Inr \<lparr>status = Some ''FAILED''\<rparr>
      else if ident = ''env-gone'' then Inl (Error ''ResourceNotFoundException'')
      else Inr \<lparr>status = Some ''STARTING''\<rparr>)"

definition exWorld :: world where
  "exWorld = \<lparr>isCancellationRequested = (\<lambda>n. False), getDevEnvironment = exAnswers,
              dateNow = (\<lambda>n. 3000 + 5000 * int n)\<rparr>"

definition exWorldCancelled :: world where
  "exWorldCancelled = \<lparr>isCancellationRequested = (\<lambda>n. True), getDevEnvironment = exAnswers,
              dateNow = (\<lambda>n. 3000 + 5000 * int n)\<rparr>"

definition exWorldLate :: world where
  "exWorldLate = \<lparr>isCancellationRequested = (\<lambda>n. False), getDevEnvironment = exAnswers,
              dateNow = (\<lambda>n. 700000 + 5000 * int n)\<rparr>"

definition exDevEnvs :: "DevEnvMemento js_record" where
  "exDevEnvs =
     [(''env-running'', exDevEnv 1000 True (Some ''my-env'')),
      (''env-failed'', exDevEnv 1000 True None),
      (''env-gone'', exDevEnv 1000 True None),
      (''env-starting'', exDevEnv 1000 True None)]"

definition exWatching :: state where
  "exWatching = \<lparr>memento = exDevEnvs, devenvs = exDevEnvs, trace = []\<rparr>"

definition exSingle :: state where
  "exSingle = \<lparr>memento = [(''env-running'', exDevEnv 1000 False (Some ''my-env''))],
               devenvs = [(''env-running'', exDevEnv 1000 False (Some ''my-env''))], trace = []\<rparr>"

definition exPending :: state where
  "exPending =
     \<lparr>memento = [(''env-running'', exDevEnv 200000 False (Some ''my-env'')),
                 (''env-claimed'', exDevEnv 200000 True None),
                 (''env-old'', exDevEnv 1000 False None)],
      devenvs = [], trace = []\<rparr>"

definition exClaimed :: state where
  "exClaimed =
     \<lparr>memento = [(''env-claimed'', exDevEnv 200000 True None), (''env-other'', exDevEnv 1000 True None)],
      devenvs = [], trace = []\<rparr>"

section \<open>Properties of the functions\<close>

declare pollDevEnvs_while.simps [simp del]

subsection \<open>One entry, one tick\<close>

lemma emit_simps [simp]:
  "trace (emit e st) = trace st @ [e]"
  "memento (emit e st) = memento st"
  "devenvs (emit e st) = devenvs st"
  by (simp_all add: emit_def)

lemma failDevEnv_simps [simp]:
  "trace (failDevEnv i st) = trace st @ [MementoUpdate (AList.delete i (memento st))]"
  "memento (failDevEnv i st) = AList.delete i (memento st)"
  "devenvs (failDevEnv i st) = devenvs st"
  by (simp_all add: failDevEnv_def Let_def)

lemma opensOf_simps [simp]:
  "opensOf k [] = []"
  "opensOf k (xs @ ys) = opensOf k xs @ opensOf k ys"
  "opensOf k (OpenReconnectedDevEnv i d c # xs) = (if i = k then OpenReconnectedDevEnv i d c # opensOf k xs else opensOf k xs)"
  "opensOf k (MementoUpdate m # xs) = opensOf k xs"
  "opensOf k (GetDevEnvironment i s p # xs) = opensOf k xs"
  "opensOf k (ProgressReport t # xs) = opensOf k xs"
  "opensOf k (ShowViewLogsMessage t # xs) = opensOf k xs"
  "opensOf k (Sleep ms # xs) = opensOf k xs"
  by (simp_all add: opensOf_def)

lemma devenvs_pollDevEnv:
  "devenvs (pollDevEnv w c n i d st) = (if unwatched w n i d then AList.delete i (devenvs st) else devenvs st)"
  by (auto simp: pollDevEnv_def Let_def unwatched_def queryRejects_def queryRunning_def queryTerminating_def
           split: sum.splits)

lemma memento_pollDevEnv:
  "memento (pollDevEnv w c n i d st) = (if queryRejects w n i d then AList.delete i (memento st) else memento st)"
  by (auto simp: pollDevEnv_def Let_def queryRejects_def split: sum.splits)

lemma opensOf_pollDevEnv:
  "opensOf k (trace (pollDevEnv w c n i d st)) =
     opensOf k (trace st) @ (if k = i \<and> queryRunning w n i d then [OpenReconnectedDevEnv i d c] else [])"
  by (auto simp: pollDevEnv_def Let_def queryRunning_def split: sum.splits)

lemma devenvs_pollDevEnvs_for:
  "map_of (devenvs (pollDevEnvs_for w c n ks st)) k =
     (case map_of (devenvs st) k of
        None \<Rightarrow> None
      | Some d \<Rightarrow> if k \<in> set ks \<and> unwatched w n k d then None else Some d)"
proof (induction ks arbitrary: st)
  case Nil
  then show ?case by (simp split: option.splits)
next
  case (Cons i ks)
  show ?case
    by (auto simp: Cons.IH devenvs_pollDevEnv AList.delete_conv split: option.splits)
qed

lemma memento_pollDevEnvs_for:
  "map_of (memento (pollDevEnvs_for w c n ks st)) k =
     (case map_of (devenvs st) k of
        None \<Rightarrow> map_of (memento st) k
      | Some d \<Rightarrow> if k \<in> set ks \<and> queryRejects w n k d then None else map_of (memento st) k)"
proof (induction ks arbitrary: st)
  case Nil
  then show ?case by (simp split: option.splits)
next
  case (Cons i ks)
  show ?case
    by (auto simp: Cons.IH devenvs_pollDevEnv memento_pollDevEnv AList.delete_conv unwatched_def split: option.splits)
qed

lemma opensOf_pollDevEnvs_for:
  "opensOf k (trace (pollDevEnvs_for w c n ks st)) =
     opensOf k (trace st) @
     (case map_of (devenvs st) k of
        None \<Rightarrow> []
      | Some d \<Rightarrow> if k \<in> set ks \<and> queryRunning w n k d then [OpenReconnectedDevEnv k d c] else [])"
proof (induction ks arbitrary: st)
  case Nil
  then show ?case by (simp split: option.splits)
next
  case (Cons i ks)
  show ?case
    by (auto simp: Cons.IH devenvs_pollDevEnv opensOf_pollDevEnv AList.delete_conv unwatched_def split: option.splits)
qed

subsection \<open>The filter pass\<close>

lemma map_of_filterInvalidDevEnvs_for:
  "map_of (filterInvalidDevEnvs_for now ks devs) k =
     (case map_of devs k of
        None \<Rightarrow> None
      | Some d \<Rightarrow> if k \<in> set ks \<and> (isExpired now (previousConnectionTimestamp d) \<or> attemptingReconnect d)
                  then None else Some d)"
proof (induction ks arbitrary: devs)
  case Nil
  then show ?case by (simp split: option.splits)
next
  case (Cons i ks)
  show ?case
    by (auto simp: Cons.IH AList.delete_conv split: option.splits)
qed

lemma map_of_filterInvalidDevEnvs:
  "map_of (filterInvalidDevEnvs now devs) k =
     (case map_of devs k of
        None \<Rightarrow> None
      | Some d \<Rightarrow> if isExpired now (previousConnectionTimestamp d) \<or> attemptingReconnect d
                  then None else Some d)"
proof (cases "map_of devs k")
  case None
  then show ?thesis by (simp add: filterInvalidDevEnvs_def map_of_filterInvalidDevEnvs_for)
next
  case (Some d)
  then have "k \<in> set (map fst devs)"
    by (metis map_of_SomeD fst_conv image_eqI set_map)
  with Some show ?thesis
    by (simp add: filterInvalidDevEnvs_def map_of_filterInvalidDevEnvs_for)
qed

lemma distinct_filterInvalidDevEnvs_for:
  "distinct (map fst devs) \<Longrightarrow> distinct (map fst (filterInvalidDevEnvs_for now ks devs))"
  by (induction ks arbitrary: devs) (auto simp: AList.distinct_delete split: option.splits)

lemma distinct_filterInvalidDevEnvs:
  "distinct (map fst devs) \<Longrightarrow> distinct (map fst (filterInvalidDevEnvs now devs))"
  by (simp add: filterInvalidDevEnvs_def distinct_filterInvalidDevEnvs_for)

subsection \<open>Setting the flag\<close>

lemma update_append_fresh:
  "k \<notin> fst ` set xs \<Longrightarrow> AList.update k v (xs @ ys) = xs @ AList.update k v ys"
  by (induction xs) auto

lemma fold_flag_aux:
  "distinct (map fst (pre @ es)) \<Longrightarrow>
   fold (\<lambda>(ident, detail). AList.update ident (g detail)) es (map_ran (\<lambda>k. g) pre @ es)
     = map_ran (\<lambda>k. g) (pre @ es)"
proof (induction es arbitrary: pre)
  case Nil
  then show ?case by simp
next
  case (Cons e es)
  obtain k v where e: "e = (k, v)" by (cases e)
  from Cons.prems e have fresh: "k \<notin> fst ` set (map_ran (\<lambda>k. g) pre)"
    by (auto simp: dom_map_ran)
  from Cons.prems e have d: "distinct (map fst ((pre @ [(k, v)]) @ es))" by simp
  have "fold (\<lambda>(ident, detail). AList.update ident (g detail)) (e # es) (map_ran (\<lambda>k. g) pre @ e # es)
      = fold (\<lambda>(ident, detail). AList.update ident (g detail)) es (map_ran (\<lambda>k. g) (pre @ [(k, v)]) @ es)"
    using fresh by (simp add: e update_append_fresh map_ran_def)
  also have "\<dots> = map_ran (\<lambda>k. g) ((pre @ [(k, v)]) @ es)"
    by (rule Cons.IH [OF d])
  finally show ?case by (simp add: e)
qed

lemma fold_flag:
  "distinct (map fst devs) \<Longrightarrow>
   fold (\<lambda>(ident, detail). AList.update ident (g detail)) devs devs = map_ran (\<lambda>k. g) devs"
  using fold_flag_aux [of "[]" devs g] by simp

lemma setWatchedDevEnvStatus_distinct:
  "distinct (map fst (devenvs st)) \<Longrightarrow>
   setWatchedDevEnvStatus b st =
     st\<lparr>devenvs := map_ran (\<lambda>k d. d\<lparr>attemptingReconnect := b\<rparr>) (devenvs st),
        memento := map_ran (\<lambda>k d. d\<lparr>attemptingReconnect := b\<rparr>) (devenvs st),
        trace := trace st @ [MementoUpdate (map_ran (\<lambda>k d. d\<lparr>attemptingReconnect := b\<rparr>) (devenvs st))]\<rparr>"
  by (simp add: setWatchedDevEnvStatus_def Let_def emit_def fold_flag)

lemma length_update_present:
  "k \<in> fst ` set al \<Longrightarrow> length (AList.update k v al) = length al"
  by (induction al) auto

lemma fold_flag_keys:
  "fst ` set es \<subseteq> fst ` set al \<Longrightarrow>
   length (fold (\<lambda>(ident, detail). AList.update ident (g detail)) es al) = length al
   \<and> fst ` set (fold (\<lambda>(ident, detail). AList.update ident (g detail)) es al) = fst ` set al"
proof (induction es arbitrary: al)
  case Nil
  then show ?case by simp
next
  case (Cons e es)
  obtain k v where e: "e = (k, v)" by (cases e)
  from Cons.prems e have k: "k \<in> fst ` set al" by auto
  then have keys: "fst ` set (AList.update k (g v) al) = fst ` set al"
    by (auto simp: AList.dom_update)
  with Cons.prems have "fst ` set es \<subseteq> fst ` set (AList.update k (g v) al)" by auto
  from Cons.IH [OF this] show ?case
    by (simp add: e keys length_update_present [OF k])
qed

lemma setWatchedDevEnvStatus_simps:
  "trace (setWatchedDevEnvStatus b st) = trace st @ [MementoUpdate (devenvs (setWatchedDevEnvStatus b st))]"
  "memento (setWatchedDevEnvStatus b st) = devenvs (setWatchedDevEnvStatus b st)"
  "length (devenvs (setWatchedDevEnvStatus b st)) = length (devenvs st)"
  "fst ` set (devenvs (setWatchedDevEnvStatus b st)) = fst ` set (devenvs st)"
  using fold_flag_keys [of "devenvs st" "devenvs st" "\<lambda>d. d\<lparr>attemptingReconnect := b\<rparr>"]
  by (simp_all add: setWatchedDevEnvStatus_def Let_def)

subsection \<open>Traces only grow\<close>

lemma newEvents_refl [simp]: "newEvents st st = []"
  by (simp add: newEvents_def)

lemma trace_newEvents: "prefix (trace st) (trace st') \<Longrightarrow> trace st' = trace st @ newEvents st st'"
  by (auto simp: newEvents_def prefix_def)

lemma newEvents_trans:
  assumes "prefix (trace st) (trace st1)" and "prefix (trace st1) (trace st2)"
  shows "newEvents st st2 = newEvents st st1 @ newEvents st1 st2"
proof -
  have "trace st2 = trace st @ newEvents st st1 @ newEvents st1 st2"
    using trace_newEvents [OF assms(1)] trace_newEvents [OF assms(2)] by simp
  then show ?thesis by (simp add: newEvents_def [of st st2])
qed

lemma prefix_pollDevEnv: "prefix (trace st) (trace (pollDevEnv w c n i d st))"
  by (auto simp: pollDevEnv_def Let_def prefix_def split: sum.splits)

lemma prefix_pollDevEnvs_for: "prefix (trace st) (trace (pollDevEnvs_for w c n ks st))"
proof (induction ks arbitrary: st)
  case Nil
  then show ?case by simp
next
  case (Cons i ks)
  show ?case
  proof (cases "map_of (devenvs st) i")
    case None
    then show ?thesis using Cons.IH [of st] by simp
  next
    case (Some d)
    then show ?thesis
      using Cons.IH [of "pollDevEnv w c n i d st"] prefix_pollDevEnv [of st w c n i d]
      by (auto intro: prefix_order.trans)
  qed
qed

lemma prefix_pollTick: "prefix (trace st) (trace (pollTick w c n st))"
  using prefix_pollDevEnvs_for [of st w c n "map fst (devenvs st)"]
  by (auto simp: pollTick_def prefix_def)

lemma prefix_setWatchedDevEnvStatus: "prefix (trace st) (trace (setWatchedDevEnvStatus b st))"
  by (simp add: setWatchedDevEnvStatus_simps)

lemma prefix_pollDevEnvs_while:
  "prefix (trace st) (trace (state_of (pollDevEnvs_while fuel w c n st)))"
proof (induction fuel arbitrary: n st)
  case 0
  show ?case
    by (simp add: pollDevEnvs_while.simps [of 0] prefix_setWatchedDevEnvStatus)
next
  case (Suc fuel)
  show ?case
    using Suc.IH [of "pollTick w c n st" "Suc n"] prefix_pollTick [of st w c n]
    by (auto simp: pollDevEnvs_while.simps [of "Suc fuel"] prefix_setWatchedDevEnvStatus
             intro: prefix_order.trans)
qed

text \<open>An event that the body emits for an entry, whatever the state, is emitted by the tick.\<close>

lemma pollDevEnvs_for_emits:
  assumes "k \<in> set ks" and "map_of (devenvs st) k = Some d"
    and "\<And>st0. e \<in> set (newEvents st0 (pollDevEnv w c n k d st0))"
  shows "e \<in> set (newEvents st (pollDevEnvs_for w c n ks st))"
  using assms(1,2)
proof (induction ks arbitrary: st)
  case Nil
  then show ?case by simp
next
  case (Cons i ks)
  show ?case
  proof (cases "i = k")
    case True
    let ?st1 = "pollDevEnv w c n k d st"
    have "newEvents st (pollDevEnvs_for w c n ks ?st1)
            = newEvents st ?st1 @ newEvents ?st1 (pollDevEnvs_for w c n ks ?st1)"
      by (rule newEvents_trans [OF prefix_pollDevEnv prefix_pollDevEnvs_for])
    with assms(3) [of st] True Cons.prems(2) show ?thesis by simp
  next
    case False
    with Cons.prems have k: "k \<in> set ks" by simp
    show ?thesis
    proof (cases "map_of (devenvs st) i")
      case None
      then show ?thesis using Cons.IH [OF k Cons.prems(2)] by simp
    next
      case (Some di)
      let ?st1 = "pollDevEnv w c n i di st"
      have look: "map_of (devenvs ?st1) k = Some d"
        using False Cons.prems(2) by (simp add: devenvs_pollDevEnv AList.delete_conv)
      have "newEvents st (pollDevEnvs_for w c n ks ?st1)
              = newEvents st ?st1 @ newEvents ?st1 (pollDevEnvs_for w c n ks ?st1)"
        by (rule newEvents_trans [OF prefix_pollDevEnv prefix_pollDevEnvs_for])
      with Cons.IH [OF k look] Some show ?thesis by simp
    qed
  qed
qed

lemma pollTick_emits:
  assumes "map_of (devenvs st) k = Some d"
    and "\<And>st0. e \<in> set (newEvents st0 (pollDevEnv w c n k d st0))"
  shows "e \<in> set (newEvents st (pollTick w c n st))"
proof -
  from assms(1) have "k \<in> set (map fst (devenvs st))"
    by (metis map_of_SomeD fst_conv image_eqI set_map)
  from pollDevEnvs_for_emits [OF this assms(1) assms(2)]
  have "e \<in> set (newEvents st (pollDevEnvs_for w c n (map fst (devenvs st)) st))" .
  moreover have "newEvents st (pollTick w c n st)
      = newEvents st (pollDevEnvs_for w c n (map fst (devenvs st)) st) @ [Sleep RECONNECT_TIMER]"
    using prefix_pollDevEnvs_for [of st w c n "map fst (devenvs st)"]
    by (auto simp: pollTick_def newEvents_def prefix_def)
  ultimately show ?thesis by simp
qed



lemma pollDevEnv_emits_terminating:
  "getDevEnvironment w n k (spaceName d) (projectName d) = Inr md \<Longrightarrow> isTerminating md \<Longrightarrow>
   status md \<noteq> Some ''RUNNING'' \<Longrightarrow>
   ProgressReport (''Dev environment '' @ getDevEnvName (alias' d) k @ '' is terminating'')
     \<in> set (newEvents st0 (pollDevEnv w c n k d st0))"
  by (simp add: pollDevEnv_def Let_def newEvents_def)

lemma pollDevEnv_emits_running:
  "getDevEnvironment w n k (spaceName d) (projectName d) = Inr md \<Longrightarrow> status md = Some ''RUNNING'' \<Longrightarrow>
   ProgressReport (''Dev environment '' @ getDevEnvName (alias' d) k @ '' is now running. Attempting to re-open'')
     \<in> set (newEvents st0 (pollDevEnv w c n k d st0))"
  by (simp add: pollDevEnv_def Let_def newEvents_def)

subsection \<open>A whole tick, and the rest of the loop\<close>

lemma devenvs_pollTick:
  "map_of (devenvs (pollTick w c n st)) k =
     (case map_of (devenvs st) k of
        None \<Rightarrow> None
      | Some d \<Rightarrow> if unwatched w n k d then None else Some d)"
proof (cases "map_of (devenvs st) k")
  case None
  then show ?thesis by (simp add: pollTick_def devenvs_pollDevEnvs_for)
next
  case (Some d)
  then have "k \<in> set (map fst (devenvs st))"
    by (metis map_of_SomeD fst_conv image_eqI set_map)
  with Some show ?thesis by (simp add: pollTick_def devenvs_pollDevEnvs_for)
qed

lemma memento_pollTick:
  "map_of (memento (pollTick w c n st)) k =
     (case map_of (devenvs st) k of
        None \<Rightarrow> map_of (memento st) k
      | Some d \<Rightarrow> if queryRejects w n k d then None else map_of (memento st) k)"
proof (cases "map_of (devenvs st) k")
  case None
  then show ?thesis by (simp add: pollTick_def memento_pollDevEnvs_for)
next
  case (Some d)
  then have "k \<in> set (map fst (devenvs st))"
    by (metis map_of_SomeD fst_conv image_eqI set_map)
  with Some show ?thesis by (simp add: pollTick_def memento_pollDevEnvs_for)
qed

lemma opensOf_pollTick:
  "opensOf k (trace (pollTick w c n st)) =
     opensOf k (trace st) @
     (case map_of (devenvs st) k of
        None \<Rightarrow> []
      | Some d \<Rightarrow> if queryRunning w n k d then [OpenReconnectedDevEnv k d c] else [])"
proof (cases "map_of (devenvs st) k")
  case None
  then show ?thesis by (simp add: pollTick_def opensOf_pollDevEnvs_for)
next
  case (Some d)
  then have "k \<in> set (map fst (devenvs st))"
    by (metis map_of_SomeD fst_conv image_eqI set_map)
  with Some show ?thesis by (simp add: pollTick_def opensOf_pollDevEnvs_for)
qed

lemma absent_setWatchedDevEnvStatus:
  "map_of (devenvs st) k = None \<Longrightarrow> map_of (devenvs (setWatchedDevEnvStatus b st)) k = None"
  by (simp add: map_of_eq_None_iff setWatchedDevEnvStatus_simps)

lemma absent_pollDevEnvs_while:
  "map_of (devenvs st) k = None \<Longrightarrow>
   opensOf k (trace (state_of (pollDevEnvs_while fuel w c n st))) = opensOf k (trace st)
   \<and> map_of (devenvs (state_of (pollDevEnvs_while fuel w c n st))) k = None"
proof (induction fuel arbitrary: n st)
  case 0
  then show ?case
    by (simp add: pollDevEnvs_while.simps [of 0] setWatchedDevEnvStatus_simps(1)
                  absent_setWatchedDevEnvStatus)
next
  case (Suc fuel)
  from Suc.prems have "map_of (devenvs (pollTick w c n st)) k = None"
    by (simp add: devenvs_pollTick)
  from Suc.IH [OF this, of "Suc n"] Suc.prems show ?case
    by (simp add: pollDevEnvs_while.simps [of "Suc fuel"] setWatchedDevEnvStatus_simps(1)
                  absent_setWatchedDevEnvStatus opensOf_pollTick)
qed

subsection \<open>Later ticks of the loop\<close>








subsection \<open>The flag for closing the window\<close>

lemma closeFlagIs_pollDevEnv: "list_all (closeFlagIs c) (newEvents st (pollDevEnv w c n i d st))"
  by (auto simp: pollDevEnv_def Let_def newEvents_def closeFlagIs_def split: sum.splits)

lemma closeFlagIs_pollDevEnvs_for: "list_all (closeFlagIs c) (newEvents st (pollDevEnvs_for w c n ks st))"
proof (induction ks arbitrary: st)
  case Nil
  then show ?case by simp
next
  case (Cons i ks)
  show ?case
  proof (cases "map_of (devenvs st) i")
    case None
    then show ?thesis using Cons.IH [of st] by simp
  next
    case (Some d)
    let ?st1 = "pollDevEnv w c n i d st"
    have "newEvents st (pollDevEnvs_for w c n ks ?st1)
            = newEvents st ?st1 @ newEvents ?st1 (pollDevEnvs_for w c n ks ?st1)"
      by (rule newEvents_trans [OF prefix_pollDevEnv prefix_pollDevEnvs_for])
    with Some Cons.IH [of ?st1] closeFlagIs_pollDevEnv [of c st w n i d] show ?thesis by simp
  qed
qed

lemma newEvents_pollTick:
  "newEvents st (pollTick w c n st)
     = newEvents st (pollDevEnvs_for w c n (map fst (devenvs st)) st) @ [Sleep RECONNECT_TIMER]"
  using prefix_pollDevEnvs_for [of st w c n "map fst (devenvs st)"]
  by (auto simp: pollTick_def newEvents_def prefix_def)

lemma closeFlagIs_pollTick: "list_all (closeFlagIs c) (newEvents st (pollTick w c n st))"
  by (simp add: newEvents_pollTick closeFlagIs_pollDevEnvs_for) (simp add: closeFlagIs_def)

lemma newEvents_setWatchedDevEnvStatus:
  "newEvents st (setWatchedDevEnvStatus b st) = [MementoUpdate (devenvs (setWatchedDevEnvStatus b st))]"
  by (simp add: newEvents_def setWatchedDevEnvStatus_simps(1))

lemma closeFlagIs_pollDevEnvs_while:
  "list_all (closeFlagIs c) (newEvents st (state_of (pollDevEnvs_while fuel w c n st)))"
proof (induction fuel arbitrary: n st)
  case 0
  show ?case
    by (simp add: pollDevEnvs_while.simps [of 0] newEvents_setWatchedDevEnvStatus closeFlagIs_def)
next
  case (Suc fuel)
  let ?st1 = "pollTick w c n st"
  let ?st2 = "state_of (pollDevEnvs_while fuel w c (Suc n) ?st1)"
  have "newEvents st ?st2 = newEvents st ?st1 @ newEvents ?st1 ?st2"
    by (rule newEvents_trans [OF prefix_pollTick prefix_pollDevEnvs_while])
  with Suc.IH [of ?st1 "Suc n"] closeFlagIs_pollTick [of c st w n] show ?case
    by (simp add: pollDevEnvs_while.simps [of "Suc fuel"] newEvents_setWatchedDevEnvStatus)
       (simp add: closeFlagIs_def)
qed

lemma closeFlagIs_pollDevEnvs:
  "list_all (closeFlagIs (length (devenvs st) = 1)) (newEvents st (state_of (pollDevEnvs fuel w st)))"
proof -
  let ?c = "length (devenvs st) = 1"
  let ?st1 = "setWatchedDevEnvStatus True st"
  let ?st2 = "state_of (pollDevEnvs_while fuel w ?c 0 ?st1)"
  have "newEvents st ?st2 = newEvents st ?st1 @ newEvents ?st1 ?st2"
    by (rule newEvents_trans [OF prefix_setWatchedDevEnvStatus prefix_pollDevEnvs_while])
  with closeFlagIs_pollDevEnvs_while [of ?c ?st1 fuel w 0] show ?thesis
    by (simp add: pollDevEnvs_def Let_def setWatchedDevEnvStatus_simps(3) newEvents_setWatchedDevEnvStatus)
       (simp add: closeFlagIs_def)
qed

subsection \<open>A store with nothing to claim\<close>

lemma filterInvalidDevEnvs_all_claimed:
  assumes "list_all (\<lambda>(k, d). attemptingReconnect d) devs"
  shows "filterInvalidDevEnvs now devs = []"
proof -
  have "map_of (filterInvalidDevEnvs now devs) k = None" for k
  proof (cases "map_of devs k")
    case None
    then show ?thesis by (simp add: map_of_filterInvalidDevEnvs)
  next
    case (Some d)
    then have "(k, d) \<in> set devs" by (rule map_of_SomeD)
    with assms have "attemptingReconnect d" by (auto simp: list_all_iff)
    with Some show ?thesis by (simp add: map_of_filterInvalidDevEnvs)
  qed
  then have "map_of (filterInvalidDevEnvs now devs) = Map.empty" by (rule ext)
  then show ?thesis by (simp only: map_of_eq_empty_iff)
qed

lemma reconnectDevEnvs_empty:
  "filterInvalidDevEnvs now (memento st) = [] \<Longrightarrow> reconnectDevEnvs fuel w now st = Returned st"
  by (simp add: reconnectDevEnvs_def Let_def)

subsection \<open>A restart handled with an environment id\<close>

lemma handleRestart_with_envId:
  "returned (handleRestart fuel w now (Some ident) st)
   \<and> devenvs (state_of (handleRestart fuel w now (Some ident) st)) = devenvs st
   \<and> (\<forall>devenv. map_of (memento st) ident = Some devenv \<longrightarrow>
        trace (state_of (handleRestart fuel w now (Some ident) st)) =
          trace st @
          [LoggerInfo (''codecatalyst: ssh session reconnected to devenv: '' @ getDevEnvName (alias' devenv) ident),
           ShowInformationMessage (''Reconnected to dev environment: '' @ getDevEnvName (alias' devenv) ident),
           MementoUpdate (AList.delete ident (memento st))]
        \<and> memento (state_of (handleRestart fuel w now (Some ident) st)) = AList.delete ident (memento st)
        \<and> map_of (memento (state_of (handleRestart fuel w now (Some ident) st))) ident = None
        \<and> (\<forall>k. k \<noteq> ident \<longrightarrow>
              map_of (memento (state_of (handleRestart fuel w now (Some ident) st))) k = map_of (memento st) k))
   \<and> (map_of (memento st) ident = None \<and> ident \<notin> set objectPrototypeProperties \<longrightarrow>
        handleRestart fuel w now (Some ident) st = Returned st)
   \<and> (map_of (memento st) ident = None \<and> ident \<in> set objectPrototypeProperties \<longrightarrow>
        handleRestart fuel w now (Some ident) st =
          Returned (st\<lparr>trace := trace st @
            [LoggerInfo (''codecatalyst: ssh session reconnected to devenv: '' @ ident),
             ShowInformationMessage (''Reconnected to dev environment: '' @ ident),
             MementoUpdate (memento st)]\<rparr>))"
proof -
  have absent: "AList.delete ident (memento st) = memento st" if "map_of (memento st) ident = None"
    using that by (simp add: map_of_eq_None_iff)
  show ?thesis
    by (auto simp: handleRestart_def hasProperty_def Let_def AList.delete_conv emit_def
                   getDevEnvName_def absent
             split: option.splits)
qed

section \<open>The claims of the specification\<close>

subsection \<open>C1: a running environment is opened once and no longer watched\<close>

text \<open>
  C1. For every record of the working set whose status query answers \<^verbatim>\<open>RUNNING\<close>, the tick
  calls the reconnect-and-open sequence once, with that record (the sequence passes the
  record's saved workspace path to the connect command), and deletes the record from the
  working set; the tick leaves the record in the persisted store. No later tick of the
  loop calls the sequence for that environment again.
\<close>

theorem running_record_opened_once:
  assumes "map_of (devenvs st) ident = Some details"
    and "getDevEnvironment w n ident (spaceName details) (projectName details) = Inr metadata"
    and "status metadata = Some ''RUNNING''"
    and "\<not> isCancellationRequested w n"
  shows "opensOf ident (trace (pollTick w c n st))
           = opensOf ident (trace st) @ [OpenReconnectedDevEnv ident details c]
       \<and> ConnectCommand ident (spaceName details) (projectName details) (previousVscodeWorkspace details)
           \<in> set (openReconnectedDevEnv ident details c connected)
       \<and> map_of (devenvs (pollTick w c n st)) ident = None
       \<and> map_of (memento (pollTick w c n st)) ident = map_of (memento st) ident
       \<and> opensOf ident (trace (state_of (pollDevEnvs_while (Suc fuel) w c n st)))
           = opensOf ident (trace st) @ [OpenReconnectedDevEnv ident details c]"
proof -
  have run: "queryRunning w n ident details"
    using assms(2,3) by (simp add: queryRunning_def)
  have rej: "\<not> queryRejects w n ident details"
    using assms(2) by (simp add: queryRejects_def)
  have opens: "opensOf ident (trace (pollTick w c n st))
                 = opensOf ident (trace st) @ [OpenReconnectedDevEnv ident details c]"
    using assms(1) run by (simp add: opensOf_pollTick)
  have gone: "map_of (devenvs (pollTick w c n st)) ident = None"
    using assms(1) run by (simp add: devenvs_pollTick unwatched_def)
  have kept: "map_of (memento (pollTick w c n st)) ident = map_of (memento st) ident"
    using assms(1) rej by (simp add: memento_pollTick)
  have nonempty: "length (devenvs st) > 0"
    using assms(1) by (cases "devenvs st") auto
  have "pollDevEnvs_while (Suc fuel) w c n st = pollDevEnvs_while fuel w c (Suc n) (pollTick w c n st)"
    using nonempty assms(4) by (simp add: pollDevEnvs_while.simps [of "Suc fuel"])
  with absent_pollDevEnvs_while [OF gone, of fuel w c "Suc n"] opens
  have later: "opensOf ident (trace (state_of (pollDevEnvs_while (Suc fuel) w c n st)))
                 = opensOf ident (trace st) @ [OpenReconnectedDevEnv ident details c]"
    by simp
  have conn: "ConnectCommand ident (spaceName details) (projectName details) (previousVscodeWorkspace details)
                \<in> set (openReconnectedDevEnv ident details c connected)"
    by (simp add: openReconnectedDevEnv_def)
  from opens conn gone kept later show ?thesis by blast
qed

theorem running_record_opened_once_witness:
  "map_of (devenvs exWatching) ''env-running'' = Some (exDevEnv 1000 True (Some ''my-env''))
   \<and> getDevEnvironment exWorld 0 ''env-running'' ''space'' ''proj'' = Inr \<lparr>status = Some ''RUNNING''\<rparr>
   \<and> \<not> isCancellationRequested exWorld 0
   \<and> opensOf ''env-running'' (trace (pollTick exWorld False 0 exWatching))
        = [OpenReconnectedDevEnv ''env-running'' (exDevEnv 1000 True (Some ''my-env'')) False]
   \<and> ConnectCommand ''env-running'' ''space'' ''proj'' ''/projects/app''
        \<in> set (openReconnectedDevEnv ''env-running'' (exDevEnv 1000 True (Some ''my-env'')) False True)
   \<and> map_of (devenvs (pollTick exWorld False 0 exWatching)) ''env-running'' = None
   \<and> map_of (memento (pollTick exWorld False 0 exWatching)) ''env-running''
        = Some (exDevEnv 1000 True (Some ''my-env''))
   \<and> opensOf ''env-running'' (trace (state_of (pollDevEnvs_while (Suc 2) exWorld False 0 exWatching)))
        = [OpenReconnectedDevEnv ''env-running'' (exDevEnv 1000 True (Some ''my-env'')) False]"
proof -
  let ?d = "exDevEnv 1000 True (Some ''my-env'')"
  have h1: "map_of (devenvs exWatching) ''env-running'' = Some ?d"
    by code_simp
  have h2: "getDevEnvironment exWorld 0 ''env-running'' (spaceName ?d) (projectName ?d)
              = Inr \<lparr>status = Some ''RUNNING''\<rparr>"
    by (simp add: exWorld_def exAnswers_def)
  have h3: "status \<lparr>status = Some ''RUNNING''\<rparr> = Some ''RUNNING''"
    by simp
  have h4: "\<not> isCancellationRequested exWorld 0"
    by (simp add: exWorld_def)
  have names: "spaceName ?d = ''space''" "projectName ?d = ''proj''"
    "previousVscodeWorkspace ?d = ''/projects/app''"
    by (simp_all add: exDevEnv_def)
  have start: "opensOf ''env-running'' (trace exWatching) = []"
    "map_of (memento exWatching) ''env-running'' = Some ?d"
    by (simp_all add: exWatching_def exDevEnvs_def)
  from running_record_opened_once [OF h1 h2 h3 h4, of False True 2] h2 h4 h1 show ?thesis
    by (simp add: names start)
qed

subsection \<open>C2: a terminating environment is no longer watched, the store is not written\<close>

text \<open>
  C2 says that a record whose status is \<^verbatim>\<open>FAILED\<close>, \<^verbatim>\<open>DELETING\<close> or \<^verbatim>\<open>DELETED\<close> is removed
  from the working set and from the persisted store. The branch only deletes the entry
  of the local object: after the tick the store still holds the record.
\<close>

theorem terminating_record_remains_persisted:
  "map_of (devenvs exWatching) ''env-failed'' = Some (exDevEnv 1000 True None)
   \<and> getDevEnvironment exWorld 0 ''env-failed'' ''space'' ''proj'' = Inr \<lparr>status = Some ''FAILED''\<rparr>
   \<and> map_of (devenvs (pollTick exWorld False 0 exWatching)) ''env-failed'' = None
   \<and> map_of (memento (pollTick exWorld False 0 exWatching)) ''env-failed''
        = Some (exDevEnv 1000 True None)"
  by code_simp

text \<open>
  C2, amended. For every record of the working set whose status query answers \<^verbatim>\<open>FAILED\<close>,
  \<^verbatim>\<open>DELETING\<close> or \<^verbatim>\<open>DELETED\<close>, the tick reports that the environment is terminating and
  deletes the record from the working set only: the branch does not write the store, the
  tick leaves the record's entry of the store as it was, and the open sequence is not
  called for it.
\<close>

theorem terminating_record_unwatched_store_kept:
  assumes "map_of (devenvs st) ident = Some details"
    and "getDevEnvironment w n ident (spaceName details) (projectName details) = Inr metadata"
    and "status metadata = Some ''FAILED'' \<or> status metadata = Some ''DELETING''
           \<or> status metadata = Some ''DELETED''"
  shows "ProgressReport (''Dev environment '' @ getDevEnvName (alias' details) ident @ '' is terminating'')
           \<in> set (newEvents st (pollTick w c n st))
       \<and> map_of (devenvs (pollTick w c n st)) ident = None
       \<and> memento (pollDevEnv w c n ident details st) = memento st
       \<and> map_of (memento (pollTick w c n st)) ident = map_of (memento st) ident
       \<and> opensOf ident (trace (pollTick w c n st)) = opensOf ident (trace st)"
proof -
  have stopping: "isTerminating metadata" and notrun: "status metadata \<noteq> Some ''RUNNING''"
    using assms(3) by (auto simp: isTerminating_def)
  have qt: "queryTerminating w n ident details"
    using assms(2) stopping notrun by (simp add: queryTerminating_def)
  have rej: "\<not> queryRejects w n ident details"
    using assms(2) by (simp add: queryRejects_def)
  have run: "\<not> queryRunning w n ident details"
    using assms(2) notrun by (simp add: queryRunning_def)
  have rep: "ProgressReport (''Dev environment '' @ getDevEnvName (alias' details) ident @ '' is terminating'')
           \<in> set (newEvents st (pollTick w c n st))"
    by (rule pollTick_emits [OF assms(1)]) (rule pollDevEnv_emits_terminating [OF assms(2) stopping notrun])
  have gone: "map_of (devenvs (pollTick w c n st)) ident = None"
    using assms(1) qt by (simp add: devenvs_pollTick unwatched_def)
  have same: "memento (pollDevEnv w c n ident details st) = memento st"
    using rej by (simp add: memento_pollDevEnv)
  have kept: "map_of (memento (pollTick w c n st)) ident = map_of (memento st) ident"
    using assms(1) rej by (simp add: memento_pollTick)
  have noopen: "opensOf ident (trace (pollTick w c n st)) = opensOf ident (trace st)"
    using assms(1) run by (simp add: opensOf_pollTick)
  from rep gone same kept noopen show ?thesis by blast
qed

theorem terminating_record_unwatched_store_kept_witness:
  "map_of (devenvs exWatching) ''env-failed'' = Some (exDevEnv 1000 True None)
   \<and> getDevEnvironment exWorld 0 ''env-failed'' ''space'' ''proj'' = Inr \<lparr>status = Some ''FAILED''\<rparr>
   \<and> ProgressReport ''Dev environment env-failed is terminating''
        \<in> set (newEvents exWatching (pollTick exWorld False 0 exWatching))
   \<and> map_of (devenvs (pollTick exWorld False 0 exWatching)) ''env-failed'' = None
   \<and> memento (pollDevEnv exWorld False 0 ''env-failed'' (exDevEnv 1000 True None) exWatching)
        = memento exWatching
   \<and> map_of (memento (pollTick exWorld False 0 exWatching)) ''env-failed''
        = Some (exDevEnv 1000 True None)
   \<and> opensOf ''env-failed'' (trace (pollTick exWorld False 0 exWatching)) = []"
proof -
  let ?d = "exDevEnv 1000 True None"
  have h1: "map_of (devenvs exWatching) ''env-failed'' = Some ?d"
    by code_simp
  have h2: "getDevEnvironment exWorld 0 ''env-failed'' (spaceName ?d) (projectName ?d)
              = Inr \<lparr>status = Some ''FAILED''\<rparr>"
    by (simp add: exWorld_def exAnswers_def)
  have h3: "status \<lparr>status = Some ''FAILED''\<rparr> = Some ''FAILED''
            \<or> status \<lparr>status = Some ''FAILED''\<rparr> = Some ''DELETING''
            \<or> status \<lparr>status = Some ''FAILED''\<rparr> = Some ''DELETED''"
    by simp
  have names: "spaceName ?d = ''space''" "projectName ?d = ''proj''"
    "getDevEnvName (alias' ?d) ''env-failed'' = ''env-failed''"
    by (simp_all add: exDevEnv_def getDevEnvName_def)
  have start: "opensOf ''env-failed'' (trace exWatching) = []"
    "map_of (memento exWatching) ''env-failed'' = Some ?d"
    by (simp_all add: exWatching_def exDevEnvs_def)
  from terminating_record_unwatched_store_kept [OF h1 h2 h3, of False] h1 h2 show ?thesis
    by (simp add: names start)
qed

subsection \<open>C3: an expired environment is reported, and stays watched\<close>

text \<open>
  C3 says that a record that has expired while its status is neither running nor
  terminating is reported as expired and removed from the working set (and left in the
  store). The branch reports the expiry and deletes nothing: at the input below the
  record is reported, is still in the working set after the tick, is queried and reported
  again on the next tick, and the loop has not returned after three ticks.
\<close>

theorem expired_record_remains_watched:
  "map_of (devenvs exWatching) ''env-starting'' = Some (exDevEnv 1000 True None)
   \<and> getDevEnvironment exWorldLate 0 ''env-starting'' ''space'' ''proj'' = Inr \<lparr>status = Some ''STARTING''\<rparr>
   \<and> dateNow exWorldLate 0 - previousConnectionTimestamp (exDevEnv 1000 True None) > MAX_RECONNECT_TIME
   \<and> ProgressReport ''Dev environment env-starting has expired''
        \<in> set (newEvents exWatching (pollTick exWorldLate False 0 exWatching))
   \<and> map_of (devenvs (pollTick exWorldLate False 0 exWatching)) ''env-starting''
        = Some (exDevEnv 1000 True None)
   \<and> map_of (memento (pollTick exWorldLate False 0 exWatching)) ''env-starting''
        = Some (exDevEnv 1000 True None)
   \<and> newEvents (pollTick exWorldLate False 0 exWatching)
        (pollTick exWorldLate False 1 (pollTick exWorldLate False 0 exWatching))
        = [GetDevEnvironment ''env-starting'' ''space'' ''proj'',
           ProgressReport ''Dev environment env-starting has expired'',
           Sleep 5000]
   \<and> \<not> returned (pollDevEnvs_while 3 exWorldLate False 0 exWatching)"
  by code_simp

subsection \<open>C4: the filter pass\<close>

text \<open>
  C4. For every store and every reading of the clock, the set that \<^verbatim>\<open>reconnectDevEnvs\<close>
  computes with \<^verbatim>\<open>filterInvalidDevEnvs\<close> holds exactly the records of the store that are not
  expired (the clock minus \<open>previousConnectionTimestamp\<close> is at most \<open>MAX_RECONNECT_TIME\<close>)
  and whose \<open>attemptingReconnect\<close> is not set, each unchanged; every other record is left out.
\<close>

theorem filterInvalidDevEnvs_keeps_exactly_valid:
  "map_of (filterInvalidDevEnvs now devs) ident = Some d \<longleftrightarrow>
     map_of devs ident = Some d \<and> now - previousConnectionTimestamp d \<le> MAX_RECONNECT_TIME
       \<and> \<not> attemptingReconnect d"
  by (auto simp: map_of_filterInvalidDevEnvs isExpired_def split: option.splits)

theorem filterInvalidDevEnvs_keeps_exactly_valid_witness:
  "map_of (memento exPending) ''env-running'' = Some (exDevEnv 200000 False (Some ''my-env''))
   \<and> 700000 - previousConnectionTimestamp (exDevEnv 200000 False (Some ''my-env'')) \<le> MAX_RECONNECT_TIME
   \<and> \<not> attemptingReconnect (exDevEnv 200000 False (Some ''my-env''))
   \<and> map_of (filterInvalidDevEnvs 700000 (memento exPending)) ''env-running''
        = Some (exDevEnv 200000 False (Some ''my-env''))
   \<and> map_of (filterInvalidDevEnvs 700000 (memento exPending)) ''env-claimed''
        \<noteq> Some (exDevEnv 200000 True None)
   \<and> map_of (filterInvalidDevEnvs 700000 (memento exPending)) ''env-old''
        \<noteq> Some (exDevEnv 1000 False None)"
proof -
  let ?d = "exDevEnv 200000 False (Some ''my-env'')"
  have h1: "map_of (memento exPending) ''env-running'' = Some ?d"
    by code_simp
  have h2: "700000 - previousConnectionTimestamp ?d \<le> MAX_RECONNECT_TIME"
    by (simp add: exDevEnv_def MAX_RECONNECT_TIME_def)
  have h3: "\<not> attemptingReconnect ?d"
    by (simp add: exDevEnv_def)
  have c: "attemptingReconnect (exDevEnv 200000 True None)"
    by (simp add: exDevEnv_def)
  have o: "\<not> 700000 - previousConnectionTimestamp (exDevEnv 1000 False None) \<le> MAX_RECONNECT_TIME"
    by (simp add: exDevEnv_def MAX_RECONNECT_TIME_def)
  from filterInvalidDevEnvs_keeps_exactly_valid [of 700000 "memento exPending" "''env-running''" ?d]
    filterInvalidDevEnvs_keeps_exactly_valid [of 700000 "memento exPending" "''env-claimed''"
      "exDevEnv 200000 True None"]
    filterInvalidDevEnvs_keeps_exactly_valid [of 700000 "memento exPending" "''env-old''"
      "exDevEnv 1000 False None"]
    h1 h2 h3 c o
  show ?thesis by blast
qed

subsection \<open>C5: the claim is written before any status query\<close>

text \<open>
  C5. Whenever the filtered set is not empty, what \<^verbatim>\<open>reconnectDevEnvs\<close> does starts with the
  report of the progress title and one write of the store whose value is the filtered
  set with \<open>attemptingReconnect\<close> set in every record; every status query comes after that
  write. The keys of the stored object are distinct, as the keys of an object are.
\<close>

theorem claim_write_precedes_status_queries:
  assumes "distinct (map fst (memento st))"
    and "filterInvalidDevEnvs now (memento st) \<noteq> []"
  shows "prefix (trace st @
                  [ProgressReport (progressTitle (filterInvalidDevEnvs now (memento st))),
                   MementoUpdate (map_ran (\<lambda>k d. d\<lparr>attemptingReconnect := True\<rparr>)
                                    (filterInvalidDevEnvs now (memento st)))])
                (trace (state_of (reconnectDevEnvs fuel w now st)))"
proof -
  let ?valid = "filterInvalidDevEnvs now (memento st)"
  let ?st0 = "emit (ProgressReport (progressTitle ?valid)) (st\<lparr>devenvs := ?valid\<rparr>)"
  let ?st1 = "setWatchedDevEnvStatus True ?st0"
  have d: "distinct (map fst (devenvs ?st0))"
    using assms(1) by (simp add: distinct_filterInvalidDevEnvs)
  have tr: "trace ?st1 = trace st @ [ProgressReport (progressTitle ?valid),
              MementoUpdate (map_ran (\<lambda>k d. d\<lparr>attemptingReconnect := True\<rparr>) ?valid)]"
    by (simp add: setWatchedDevEnvStatus_distinct [OF d])
  have "reconnectDevEnvs fuel w now st = pollDevEnvs_while fuel w (length (devenvs ?st1) = 1) 0 ?st1"
    using assms(2) by (simp add: reconnectDevEnvs_def pollDevEnvs_def Let_def)
  with prefix_pollDevEnvs_while [of ?st1 fuel w "length (devenvs ?st1) = 1" 0] tr
  show ?thesis by simp
qed

theorem claim_write_precedes_status_queries_witness:
  "distinct (map fst (memento exPending))
   \<and> filterInvalidDevEnvs 700000 (memento exPending) \<noteq> []
   \<and> prefix [ProgressReport ''The following devenvs are restarting: my-env'',
              MementoUpdate [(''env-running'', exDevEnv 200000 True (Some ''my-env''))]]
        (trace (state_of (reconnectDevEnvs 1 exWorld 700000 exPending)))"
proof -
  have h1: "distinct (map fst (memento exPending))"
    by code_simp
  have v: "filterInvalidDevEnvs 700000 (memento exPending)
             = [(''env-running'', exDevEnv 200000 False (Some ''my-env''))]"
    by code_simp
  have h2: "filterInvalidDevEnvs 700000 (memento exPending) \<noteq> []"
    by (simp add: v)
  have t: "progressTitle [(''env-running'', exDevEnv 200000 False (Some ''my-env''))]
             = ''The following devenvs are restarting: my-env''"
    by code_simp
  have m: "(exDevEnv 200000 False (Some ''my-env''))\<lparr>attemptingReconnect := True\<rparr>
             = exDevEnv 200000 True (Some ''my-env'')"
    by (simp add: exDevEnv_def)
  have e: "trace exPending = []"
    by (simp add: exPending_def)
  from claim_write_precedes_status_queries [OF h1 h2, of 1 exWorld] h1 h2 show ?thesis
    by (simp add: v t m e)
qed

subsection \<open>C6: cancellation\<close>

text \<open>
  C6. If, at the start of a tick, records remain in the working set and cancellation has
  been requested, the loop returns at once, for every bound on the number of ticks: its
  only effect is one write of the store, whose value is the remaining working set with
  \<open>attemptingReconnect\<close> cleared in every record. No status query and no other write
  follows.
\<close>

theorem cancellation_releases_claims_and_returns:
  assumes "devenvs st \<noteq> []"
    and "isCancellationRequested w n"
    and "distinct (map fst (devenvs st))"
  shows "pollDevEnvs_while fuel w c n st =
           Returned (st\<lparr>devenvs := map_ran (\<lambda>k d. d\<lparr>attemptingReconnect := False\<rparr>) (devenvs st),
                        memento := map_ran (\<lambda>k d. d\<lparr>attemptingReconnect := False\<rparr>) (devenvs st),
                        trace := trace st @
                          [MementoUpdate (map_ran (\<lambda>k d. d\<lparr>attemptingReconnect := False\<rparr>) (devenvs st))]\<rparr>)"
  using assms by (simp add: pollDevEnvs_while.simps [of fuel] setWatchedDevEnvStatus_distinct)

theorem cancellation_releases_claims_and_returns_witness:
  "devenvs exWatching \<noteq> []
   \<and> isCancellationRequested exWorldCancelled 0
   \<and> distinct (map fst (devenvs exWatching))
   \<and> pollDevEnvs_while 7 exWorldCancelled False 0 exWatching =
       Returned
         \<lparr>memento = [(''env-running'', exDevEnv 1000 False (Some ''my-env'')),
                     (''env-failed'', exDevEnv 1000 False None),
                     (''env-gone'', exDevEnv 1000 False None),
                     (''env-starting'', exDevEnv 1000 False None)],
          devenvs = [(''env-running'', exDevEnv 1000 False (Some ''my-env'')),
                     (''env-failed'', exDevEnv 1000 False None),
                     (''env-gone'', exDevEnv 1000 False None),
                     (''env-starting'', exDevEnv 1000 False None)],
          trace = [MementoUpdate
                     [(''env-running'', exDevEnv 1000 False (Some ''my-env'')),
                      (''env-failed'', exDevEnv 1000 False None),
                      (''env-gone'', exDevEnv 1000 False None),
                      (''env-starting'', exDevEnv 1000 False None)]]\<rparr>"
proof -
  have h1: "devenvs exWatching \<noteq> []"
    by (simp add: exWatching_def exDevEnvs_def)
  have h2: "isCancellationRequested exWorldCancelled 0"
    by (simp add: exWorldCancelled_def)
  have h3: "distinct (map fst (devenvs exWatching))"
    by code_simp
  from cancellation_releases_claims_and_returns [OF h1 h2 h3, of 7 False] h1 h2 h3 show ?thesis
    by (simp add: exWatching_def exDevEnvs_def exDevEnv_def)
qed

subsection \<open>C7: a rejected status query\<close>



subsection \<open>C8: closing the window\<close>

text \<open>
  C8. If the working set handed to the poller holds exactly one record, every call of
  the open sequence in that watch cycle carries \<open>closeRootInstance = True\<close>, and the
  sequence, once its connect command has resolved, sleeps and then closes the window,
  after the connect command. If the working set holds two or more records, the poller
  never closes the window, every call of the open sequence carries \<open>False\<close>, and the
  sequence started by such a call never closes the window.
\<close>

theorem close_window_only_for_single_record:
  "(length (devenvs st) = 1 \<longrightarrow>
      (\<forall>i d c. OpenReconnectedDevEnv i d c \<in> set (newEvents st (state_of (pollDevEnvs fuel w st))) \<longrightarrow>
         c \<and> openReconnectedDevEnv i d c True =
               [TelemetryRecord ''Reconnect'',
                ConnectCommand i (spaceName d) (projectName d) (previousVscodeWorkspace d),
                Sleep 5000, CloseWindow]))
   \<and> (2 \<le> length (devenvs st) \<longrightarrow>
        CloseWindow \<notin> set (newEvents st (state_of (pollDevEnvs fuel w st))) \<and>
        (\<forall>i d c connected.
           OpenReconnectedDevEnv i d c \<in> set (newEvents st (state_of (pollDevEnvs fuel w st))) \<longrightarrow>
           CloseWindow \<notin> set (openReconnectedDevEnv i d c connected)))"
proof -
  have all: "\<forall>e \<in> set (newEvents st (state_of (pollDevEnvs fuel w st))).
               closeFlagIs (length (devenvs st) = 1) e"
    using closeFlagIs_pollDevEnvs [of st fuel w] by (simp add: list_all_iff)
  have flag: "c = (length (devenvs st) = 1)"
    if "OpenReconnectedDevEnv i d c \<in> set (newEvents st (state_of (pollDevEnvs fuel w st)))" for i d c
    using all that by (auto simp: closeFlagIs_def)
  have noclose: "CloseWindow \<notin> set (newEvents st (state_of (pollDevEnvs fuel w st)))"
    using all by (auto simp: closeFlagIs_def)
  have one: "c \<and> openReconnectedDevEnv i d c True =
               [TelemetryRecord ''Reconnect'',
                ConnectCommand i (spaceName d) (projectName d) (previousVscodeWorkspace d),
                Sleep 5000, CloseWindow]"
    if "length (devenvs st) = 1"
      and "OpenReconnectedDevEnv i d c \<in> set (newEvents st (state_of (pollDevEnvs fuel w st)))" for i d c
    using flag [OF that(2)] that(1) by (simp add: openReconnectedDevEnv_def)
  have many: "CloseWindow \<notin> set (openReconnectedDevEnv i d c connected)"
    if "2 \<le> length (devenvs st)"
      and "OpenReconnectedDevEnv i d c \<in> set (newEvents st (state_of (pollDevEnvs fuel w st)))"
    for i d c connected
    using flag [OF that(2)] that(1) by (simp add: openReconnectedDevEnv_def)
  show ?thesis
    using one many noclose by blast
qed

theorem close_window_only_for_single_record_witness:
  "length (devenvs exSingle) = 1
   \<and> OpenReconnectedDevEnv ''env-running'' (exDevEnv 1000 True (Some ''my-env'')) True
        \<in> set (newEvents exSingle (state_of (pollDevEnvs 1 exWorld exSingle)))
   \<and> openReconnectedDevEnv ''env-running'' (exDevEnv 1000 True (Some ''my-env'')) True True
        = [TelemetryRecord ''Reconnect'',
           ConnectCommand ''env-running'' ''space'' ''proj'' ''/projects/app'',
           Sleep 5000, CloseWindow]
   \<and> 2 \<le> length (devenvs exWatching)
   \<and> OpenReconnectedDevEnv ''env-running'' (exDevEnv 1000 True (Some ''my-env'')) False
        \<in> set (newEvents exWatching (state_of (pollDevEnvs 1 exWorld exWatching)))
   \<and> CloseWindow \<notin> set (newEvents exWatching (state_of (pollDevEnvs 1 exWorld exWatching)))
   \<and> CloseWindow \<notin> set (openReconnectedDevEnv ''env-running'' (exDevEnv 1000 True (Some ''my-env''))
                            False True)"
proof -
  let ?d = "exDevEnv 1000 True (Some ''my-env'')"
  have l1: "length (devenvs exSingle) = 1"
    by (simp add: exSingle_def)
  have e1: "OpenReconnectedDevEnv ''env-running'' ?d True
              \<in> set (newEvents exSingle (state_of (pollDevEnvs 1 exWorld exSingle)))"
    by code_simp
  have l2: "2 \<le> length (devenvs exWatching)"
    by (simp add: exWatching_def exDevEnvs_def)
  have e2: "OpenReconnectedDevEnv ''env-running'' ?d False
              \<in> set (newEvents exWatching (state_of (pollDevEnvs 1 exWorld exWatching)))"
    by code_simp
  have names: "spaceName ?d = ''space''" "projectName ?d = ''proj''"
    "previousVscodeWorkspace ?d = ''/projects/app''"
    by (simp_all add: exDevEnv_def)
  from close_window_only_for_single_record [of exSingle 1 exWorld] l1 e1
  have one: "openReconnectedDevEnv ''env-running'' ?d True True
        = [TelemetryRecord ''Reconnect'',
           ConnectCommand ''env-running'' (spaceName ?d) (projectName ?d) (previousVscodeWorkspace ?d),
           Sleep 5000, CloseWindow]"
    by blast
  from close_window_only_for_single_record [of exWatching 1 exWorld] l2 e2
  have many: "CloseWindow \<notin> set (newEvents exWatching (state_of (pollDevEnvs 1 exWorld exWatching)))"
    "CloseWindow \<notin> set (openReconnectedDevEnv ''env-running'' ?d False True)"
    by blast+
  from l1 e1 one l2 e2 many show ?thesis
    by (simp only: names) blast
qed

subsection \<open>C9: nothing to claim\<close>

text \<open>
  C9. On a store in which every record has \<open>attemptingReconnect\<close> set,
  \<^verbatim>\<open>reconnectDevEnvs\<close> returns with the state as it was: no write of the store, no status
  query, no poll loop. The same holds whenever the filtered set is empty, and in
  particular on the store as a first call has just left it by its claim.
\<close>

theorem reconnectDevEnvs_nothing_to_claim:
  "(list_all (\<lambda>(k, d). attemptingReconnect d) (memento st) \<longrightarrow>
      reconnectDevEnvs fuel w now st = Returned st)
   \<and> (filterInvalidDevEnvs now (memento st) = [] \<longrightarrow> reconnectDevEnvs fuel w now st = Returned st)
   \<and> (distinct (map fst (devenvs st0)) \<longrightarrow>
        reconnectDevEnvs fuel w now (setWatchedDevEnvStatus True st0)
          = Returned (setWatchedDevEnvStatus True st0))"
proof -
  have a: "reconnectDevEnvs fuel w now st = Returned st"
    if "list_all (\<lambda>(k, d). attemptingReconnect d) (memento st)"
    by (rule reconnectDevEnvs_empty) (rule filterInvalidDevEnvs_all_claimed [OF that])
  have c: "reconnectDevEnvs fuel w now (setWatchedDevEnvStatus True st0)
          = Returned (setWatchedDevEnvStatus True st0)"
    if "distinct (map fst (devenvs st0))"
  proof -
    have "list_all (\<lambda>(k, d). attemptingReconnect d) (memento (setWatchedDevEnvStatus True st0))"
      by (auto simp: setWatchedDevEnvStatus_distinct [OF that] list_all_iff map_ran_def)
    then show ?thesis
      by (intro reconnectDevEnvs_empty filterInvalidDevEnvs_all_claimed)
  qed
  from a c show ?thesis by (auto intro: reconnectDevEnvs_empty)
qed

theorem reconnectDevEnvs_nothing_to_claim_witness:
  "list_all (\<lambda>(k, d). attemptingReconnect d) (memento exClaimed)
   \<and> filterInvalidDevEnvs 700000 (memento exClaimed) = []
   \<and> reconnectDevEnvs 5 exWorld 700000 exClaimed = Returned exClaimed
   \<and> distinct (map fst (devenvs exSingle))
   \<and> reconnectDevEnvs 5 exWorld 700000 (setWatchedDevEnvStatus True exSingle)
        = Returned (setWatchedDevEnvStatus True exSingle)"
proof -
  have h1: "list_all (\<lambda>(k, d). attemptingReconnect d) (memento exClaimed)"
    by (simp add: exClaimed_def exDevEnv_def)
  have h2: "filterInvalidDevEnvs 700000 (memento exClaimed) = []"
    by code_simp
  have h3: "distinct (map fst (devenvs exSingle))"
    by (simp add: exSingle_def)
  from reconnectDevEnvs_nothing_to_claim [of exClaimed 5 exWorld 700000 exSingle] h1 h2 h3
  show ?thesis by blast
qed

subsection \<open>C10: a restart handled inside the environment\<close>


end
